theory Spec2Isabelle
  imports Main
begin

section \<open>Python values used by arithmetic\_arranger.py\<close>

text \<open>
  A Python \<open>str\<close> is a sequence of code points. This development covers the code
  points below 256 (Latin-1), one \<^typ>\<open>char\<close> each, so \<^const>\<open>length\<close> is Python's
  \<open>len\<close>. On that range the character tables of \<open>str.split\<close>, \<open>str.isnumeric\<close>
  and \<open>int\<close> are written out in full. Above it Python knows further blanks, numeric
  characters and decimal digits of other scripts (\<open>int\<close> reads those digits too); strings
  holding them are outside this development, and what is proved of decimal digits is
  proved of the ASCII digits \<open>0\<close> to \<open>9\<close>. Python's \<open>int\<close> is unbounded: \<^typ>\<open>int\<close>.
\<close>

datatype exn = IndexError | ValueError

definition getitem :: "'a list \<Rightarrow> nat \<Rightarrow> exn + 'a" where
  \<comment> \<open>\<open>xs[i]\<close> for a non-negative constant index: IndexError out of range.\<close>
  "getitem xs i = (if i < length xs then Inr (xs ! i) else Inl IndexError)"

definition isspace :: "char \<Rightarrow> bool" where
  \<comment> \<open>The whitespace of \<open>str.split()\<close> below 256: TAB, LF, VT, FF, CR, FS, GS, RS, US,
      SPACE, NEL, NBSP.\<close>
  "isspace c = (of_char c \<in> set [9, 10, 11, 12, 13, 28, 29, 30, 31, 32, 133, 160 :: nat])"

fun split_from :: "string \<Rightarrow> string \<Rightarrow> string list" where
  \<comment> \<open>\<open>split_from cur s\<close>: the tokens of \<open>s\<close>, the token being read so far being \<open>cur\<close>.\<close>
  "split_from cur [] = (if cur = [] then [] else [cur])"
| "split_from cur (c # cs) =
     (if isspace c then (if cur = [] then split_from [] cs else cur # split_from [] cs)
      else split_from (cur @ [c]) cs)"

definition split :: "string \<Rightarrow> string list" where
  \<comment> \<open>\<open>s.split()\<close>: the maximal runs of non-whitespace characters, in order.\<close>
  "split s = split_from [] s"

definition isdecimal_char :: "char \<Rightarrow> bool" where
  \<comment> \<open>The ASCII digits \<open>0\<close> to \<open>9\<close>: the only decimal digits below 256.\<close>
  "isdecimal_char c = (48 \<le> (of_char c :: nat) \<and> (of_char c :: nat) \<le> 57)"

definition isnumeric_char :: "char \<Rightarrow> bool" where
  \<comment> \<open>The characters below 256 with a Unicode numeric value: the decimal digits,
      superscript two, three and one (178, 179, 185) and the fractions one quarter,
      one half and three quarters (188, 189, 190).\<close>
  "isnumeric_char c =
     (isdecimal_char c \<or> of_char c \<in> set [178, 179, 185, 188, 189, 190 :: nat])"

definition isnumeric :: "string \<Rightarrow> bool" where
  \<comment> \<open>\<open>s.isnumeric()\<close>: at least one character, and all of them numeric.\<close>
  "isnumeric s = (s \<noteq> [] \<and> list_all isnumeric_char s)"

definition digit_value :: "char \<Rightarrow> nat" where
  "digit_value c = of_char c - 48"

definition digits_value :: "string \<Rightarrow> nat" where
  \<comment> \<open>The number a string of decimal digits denotes, most significant digit first.\<close>
  "digits_value s = foldl (\<lambda>acc c. 10 * acc + digit_value c) 0 s"

definition py_int :: "string \<Rightarrow> exn + int" where
  \<comment> \<open>\<open>int(s)\<close> on a string of code points below 256 for which \<open>isnumeric\<close> holds (the
      only strings the program converts): the value of the ASCII digits, ValueError when
      a character is not one. (No sign, underscore or blank can occur in such a string.)\<close>
  "py_int s =
     (if s \<noteq> [] \<and> list_all isdecimal_char s then Inr (int (digits_value s))
      else Inl ValueError)"

fun str_nat :: "nat \<Rightarrow> string" where
  "str_nat n =
     (if n < 10 then [char_of (48 + n)]
      else str_nat (n div 10) @ [char_of (48 + n mod 10)])"

declare str_nat.simps [simp del]

definition py_str :: "int \<Rightarrow> string" where
  \<comment> \<open>\<open>str(i)\<close>: decimal digits, a leading minus sign when negative.\<close>
  "py_str i = (if i < 0 then CHR ''-'' # str_nat (nat (- i)) else str_nat (nat i))"

definition rjust :: "string \<Rightarrow> nat \<Rightarrow> char \<Rightarrow> string" where
  \<comment> \<open>\<open>s.rjust(width, fillchar)\<close>: \<open>s\<close> itself when it is already that long.\<close>
  "rjust s width fillchar = replicate (width - length s) fillchar @ s"

section \<open>Constants\<close>

definition PROBLEM_LIMIT :: nat where "PROBLEM_LIMIT = 5"
definition DIGIT_LENGTH_LIMIT :: nat where "DIGIT_LENGTH_LIMIT = 4"
definition OP1_IDX :: nat where "OP1_IDX = 0"
definition SIGN_IDX :: nat where "SIGN_IDX = 1"
definition OP2_IDX :: nat where "OP2_IDX = 2"

definition TAB :: string where "TAB = ''    ''"
definition NEW_LINE :: string where "NEW_LINE = [CHR 0x0A]"

definition ERR_TOO_MANY_PROBLEMS :: string where
  "ERR_TOO_MANY_PROBLEMS = ''Error: Too many problems.''"
definition ERR_INVALID_OPERATOR :: string where
  "ERR_INVALID_OPERATOR = ''Error: Operator must be '+' or '-'.''"
definition ERR_NON_DIGITS_PRESENT :: string where
  "ERR_NON_DIGITS_PRESENT = ''Error: Numbers must only contain digits.''"
definition ERR_NUMBER_TOO_LONG :: string where
  "ERR_NUMBER_TOO_LONG = ''Error: Numbers cannot be more than four digits.''"
definition ERR_NUMBER_OF_TOKENS_MISMATCH :: string where
  "ERR_NUMBER_OF_TOKENS_MISMATCH =
     ''Error: Expected 3 tokens (two operands and an operator), but got a different amount.''"
definition ERR_GENERIC :: string where
  "ERR_GENERIC = ''Error: An unexpected error occurred.''"

definition ERR_IO :: int where "ERR_IO = 1"
definition ERR_NDP :: int where "ERR_NDP = 2"
definition ERR_NTL :: int where "ERR_NTL = 3"
definition ERR_NOTM :: int where "ERR_NOTM = 4"

section \<open>The program\<close>

record Equation =
  operand1 :: string
  operator :: string
  operand2 :: string
  solution :: int

text \<open>What \<open>parse_equation\<close> returns: an integer return code or an Equation.\<close>

datatype ret = Code int | Parsed Equation

definition calculate_solution :: "int \<Rightarrow> string \<Rightarrow> int \<Rightarrow> int" where
  "calculate_solution op1 sign op2 = (if sign = ''+'' then op1 + op2 else op1 - op2)"

definition parse_equation :: "string \<Rightarrow> exn + ret" where
  \<comment> \<open>The checks in the source's order. \<open>not a or not b\<close> evaluates \<open>tokens[2]\<close> only when
      \<open>tokens[0]\<close> is numeric, so the two indexings are separate steps.\<close>
  "parse_equation string_equation =
     (let tokens = split string_equation in
      case getitem tokens OP1_IDX of Inl e \<Rightarrow> Inl e | Inr t1 \<Rightarrow>
      if \<not> isnumeric t1 then Inr (Code ERR_NDP) else
      case getitem tokens OP2_IDX of Inl e \<Rightarrow> Inl e | Inr t2 \<Rightarrow>
      if \<not> isnumeric t2 then Inr (Code ERR_NDP) else
      if length t1 > DIGIT_LENGTH_LIMIT \<or> length t2 > DIGIT_LENGTH_LIMIT
      then Inr (Code ERR_NTL) else
      case getitem tokens SIGN_IDX of Inl e \<Rightarrow> Inl e | Inr sign \<Rightarrow>
      if sign \<noteq> ''+'' \<and> sign \<noteq> ''-'' then Inr (Code ERR_IO) else
      case py_int t1 of Inl e \<Rightarrow> Inl e | Inr op1 \<Rightarrow>
      case py_int t2 of Inl e \<Rightarrow> Inl e | Inr op2 \<Rightarrow>
      Inr (Parsed \<lparr>operand1 = py_str op1, operator = sign, operand2 = py_str op2,
                   solution = calculate_solution op1 sign op2\<rparr>))"

definition get_longest_operand_len :: "Equation \<Rightarrow> nat" where
  "get_longest_operand_len eq = max (length (operand1 eq)) (length (operand2 eq))"

definition line_entry :: "nat \<Rightarrow> Equation \<Rightarrow> string option" where
  \<comment> \<open>The \<open>match str(current_line)\<close> statement: what is appended to the line for one
      equation, None in the default case.\<close>
  "line_entry current_line eq =
     (let longest_operand_len = get_longest_operand_len eq in
      if current_line = 1 then Some (rjust (operand1 eq) (longest_operand_len + 2) CHR '' '')
      else if current_line = 2
        then Some (operator eq @ '' '' @ rjust (operand2 eq) longest_operand_len CHR '' '')
      else if current_line = 3 then Some (rjust [] (longest_operand_len + 2) CHR ''-'')
      else if current_line = 4
        then Some (rjust (py_str (solution eq)) (longest_operand_len + 2) CHR '' '')
      else None)"

fun line_loop :: "nat \<Rightarrow> Equation list \<Rightarrow> nat list \<Rightarrow> string \<Rightarrow> string + string" where
  \<comment> \<open>The inner loop over the remaining indices; Inl is the early \<open>return ERR_GENERIC\<close>.\<close>
  "line_loop current_line equations [] line = Inr line"
| "line_loop current_line equations (equation_idx # idxs) line =
     (case line_entry current_line (equations ! equation_idx) of
        None \<Rightarrow> Inl ERR_GENERIC
      | Some entry \<Rightarrow>
          line_loop current_line equations idxs
            (line @ entry @
              (if equation_idx \<noteq> length equations - 1 then TAB else NEW_LINE)))"

fun rows_loop :: "nat list \<Rightarrow> Equation list \<Rightarrow> string \<Rightarrow> string" where
  \<comment> \<open>The outer loop over the remaining line numbers.\<close>
  "rows_loop [] equations equations_string = equations_string"
| "rows_loop (current_line # r) equations equations_string =
     (case line_loop current_line equations [0..<length equations] [] of
        Inl msg \<Rightarrow> msg
      | Inr line \<Rightarrow> rows_loop r equations (equations_string @ line))"

definition format_equations_string :: "Equation list \<Rightarrow> bool \<Rightarrow> string" where
  "format_equations_string equations show_solutions =
     rows_loop (if show_solutions then [1..<5] else [1..<4]) equations []"

fun parse_loop :: "string list \<Rightarrow> Equation list \<Rightarrow> exn + (string + Equation list)" where
  \<comment> \<open>The loop of \<open>arithmetic_arranger\<close>: Inr (Inl msg) is an early return of a message,
      Inr (Inr equations) the list built when the loop ends.\<close>
  "parse_loop [] equations = Inr (Inr equations)"
| "parse_loop (string_equation # rest) equations =
     (case parse_equation string_equation of
        Inl e \<Rightarrow> Inl e
      | Inr (Parsed eq) \<Rightarrow> parse_loop rest (equations @ [eq])
      | Inr (Code ret_val) \<Rightarrow>
          Inr (Inl (if ret_val = 1 then ERR_INVALID_OPERATOR
                    else if ret_val = 2 then ERR_NON_DIGITS_PRESENT
                    else if ret_val = 3 then ERR_NUMBER_TOO_LONG
                    else if ret_val = 4 then ERR_NUMBER_OF_TOKENS_MISMATCH
                    else ERR_GENERIC)))"

definition arithmetic_arranger :: "string list \<Rightarrow> bool \<Rightarrow> exn + string" where
  "arithmetic_arranger problems show_solutions =
     (if length problems > PROBLEM_LIMIT then Inr ERR_TOO_MANY_PROBLEMS
      else case parse_loop problems [] of
             Inl e \<Rightarrow> Inl e
           | Inr (Inl msg) \<Rightarrow> Inr msg
           | Inr (Inr equations) \<Rightarrow> Inr (format_equations_string equations show_solutions))"

section \<open>Notions of the specification\<close>

text \<open>
  The column width of an equation, the rows of the block as segments joined by a
  separator (Python's \<open>sep.join\<close>), an operand token without its leading zeros, and
  the entry of an equation on the solution row.
\<close>

definition column_width :: "Equation \<Rightarrow> nat" where
  "column_width eq = max (length (operand1 eq)) (length (operand2 eq)) + 2"

fun join :: "string \<Rightarrow> string list \<Rightarrow> string" where
  "join sep [] = []"
| "join sep [x] = x"
| "join sep (x # y # ys) = x @ sep @ join sep (y # ys)"

definition strip_leading_zeros :: "string \<Rightarrow> string" where
  "strip_leading_zeros s =
     (let r = dropWhile (\<lambda>c. c = CHR ''0'') s in if r = [] then ''0'' else r)"

definition solution_entry :: "Equation \<Rightarrow> string" where
  "solution_entry eq = rjust (py_str (solution eq)) (column_width eq) CHR '' ''"

text \<open>
  For the proofs: the entry of an equation on a line known to be one of the four, and
  the shape of every Equation that \<open>parse_equation\<close> builds.
\<close>

definition segment_of :: "nat \<Rightarrow> Equation \<Rightarrow> string" where
  "segment_of k eq = (case line_entry k eq of Some s \<Rightarrow> s | None \<Rightarrow> [])"

definition from_parse :: "Equation \<Rightarrow> bool" where
  "from_parse eq =
     (\<exists>a b sign. (sign = ''+'' \<or> sign = ''-'') \<and>
        eq = \<lparr>operand1 = str_nat a, operator = sign, operand2 = str_nat b,
               solution = calculate_solution (int a) sign (int b)\<rparr>)"

section \<open>Decimal strings\<close>

lemma digit_chars:
  "char_of (48::nat) = CHR ''0''" "char_of (49::nat) = CHR ''1''"
  "char_of (50::nat) = CHR ''2''" "char_of (51::nat) = CHR ''3''"
  "char_of (52::nat) = CHR ''4''" "char_of (53::nat) = CHR ''5''"
  "char_of (54::nat) = CHR ''6''" "char_of (55::nat) = CHR ''7''"
  "char_of (56::nat) = CHR ''8''" "char_of (57::nat) = CHR ''9''"
  by code_simp+

lemma digits_value_snoc: "digits_value (s @ [c]) = 10 * digits_value s + digit_value c"
  by (simp add: digits_value_def)

lemma digit_value_less: "isdecimal_char c \<Longrightarrow> digit_value c < 10"
  by (auto simp: isdecimal_char_def digit_value_def)

lemma char_of_digit_value: "isdecimal_char c \<Longrightarrow> char_of (48 + digit_value c) = c"
  by (simp add: isdecimal_char_def digit_value_def)

lemma digit_value_zero: "isdecimal_char c \<Longrightarrow> digit_value c = 0 \<longleftrightarrow> c = CHR ''0''"
proof -
  assume d: "isdecimal_char c"
  have "digit_value c = 0 \<longleftrightarrow> (of_char c :: nat) = of_char (CHR ''0'')"
    using d by (auto simp: isdecimal_char_def digit_value_def)
  then show ?thesis
    by (simp only: of_char_eq_iff)
qed

lemma str_nat_digit: "n < 10 \<Longrightarrow> str_nat n = [char_of (48 + n)]"
  by (simp add: str_nat.simps)

lemma str_nat_step:
  "0 < v \<Longrightarrow> d < 10 \<Longrightarrow> str_nat (10 * v + d) = str_nat v @ [char_of (48 + d)]"
  by (subst str_nat.simps) simp

lemma str_nat_digits_value:
  "list_all isdecimal_char s \<Longrightarrow>
   (dropWhile (\<lambda>c. c = CHR ''0'') s = [] \<longrightarrow> digits_value s = 0) \<and>
   (dropWhile (\<lambda>c. c = CHR ''0'') s \<noteq> [] \<longrightarrow>
      0 < digits_value s \<and> str_nat (digits_value s) = dropWhile (\<lambda>c. c = CHR ''0'') s)"
proof (induction s rule: rev_induct)
  case Nil
  show ?case by (simp add: digits_value_def)
next
  case (snoc c s)
  from snoc.prems have ds: "list_all isdecimal_char s" and dc: "isdecimal_char c"
    by simp_all
  note ih = snoc.IH [OF ds]
  let ?z = "\<lambda>c. c = CHR ''0''"
  show ?case
  proof (cases "dropWhile ?z s = []")
    case True
    then have all0: "\<forall>x\<in>set s. x = CHR ''0''"
      by (simp add: dropWhile_eq_Nil_conv)
    have v0: "digits_value s = 0" using ih True by simp
    have dw: "dropWhile ?z (s @ [c]) = dropWhile ?z [c]"
      using all0 by (simp add: dropWhile_append2)
    show ?thesis
    proof (cases "c = CHR ''0''")
      case True
      then show ?thesis
        using dw v0 dc by (simp add: digits_value_snoc digit_value_zero)
    next
      case False
      then have "0 < digit_value c"
        using digit_value_zero [OF dc] by simp
      then show ?thesis
        using dw v0 dc False digit_value_less [OF dc]
        by (simp add: digits_value_snoc str_nat_digit char_of_digit_value)
    qed
  next
    case False
    then obtain x where x: "x \<in> set s" "\<not> ?z x"
      by (auto simp: dropWhile_eq_Nil_conv)
    then have dw: "dropWhile ?z (s @ [c]) = dropWhile ?z s @ [c]"
      by (simp add: dropWhile_append1)
    have pos: "0 < digits_value s" and st: "str_nat (digits_value s) = dropWhile ?z s"
      using ih False by simp_all
    show ?thesis
      using dw pos st digit_value_less [OF dc] dc
      by (simp add: digits_value_snoc str_nat_step char_of_digit_value)
  qed
qed

lemma str_nat_zero: "str_nat 0 = ''0''"
  by code_simp

lemma py_str_digits_value:
  "list_all isdecimal_char s \<Longrightarrow> py_str (int (digits_value s)) = strip_leading_zeros s"
  using str_nat_digits_value [of s]
  by (auto simp: py_str_def strip_leading_zeros_def str_nat_zero Let_def)

lemma py_int_Inr:
  "py_int s = Inr n \<Longrightarrow> s \<noteq> [] \<and> list_all isdecimal_char s \<and> n = int (digits_value s)"
  by (auto simp: py_int_def digits_value_def split: if_splits)

lemma getitem_Inr: "getitem xs i = Inr x \<Longrightarrow> i < length xs \<and> x = xs ! i"
  by (auto simp: getitem_def split: if_splits)

lemma parse_equation_Parsed:
  assumes "parse_equation s = Inr (Parsed eq)"
  shows "\<exists>t1 sign t2 rest. split s = t1 # sign # t2 # rest \<and>
           list_all isdecimal_char t1 \<and> list_all isdecimal_char t2 \<and>
           t1 \<noteq> [] \<and> t2 \<noteq> [] \<and> length t1 \<le> 4 \<and> length t2 \<le> 4 \<and>
           (sign = ''+'' \<or> sign = ''-'') \<and>
           eq = \<lparr>operand1 = py_str (int (digits_value t1)), operator = sign,
                  operand2 = py_str (int (digits_value t2)),
                  solution = calculate_solution (int (digits_value t1)) sign
                    (int (digits_value t2))\<rparr>"
proof -
  obtain t1 where g1: "getitem (split s) 0 = Inr t1"
    using assms by (auto simp: parse_equation_def Let_def OP1_IDX_def split: sum.splits)
  obtain t2 where g2: "getitem (split s) 2 = Inr t2"
    using assms g1
    by (auto simp: parse_equation_def Let_def OP1_IDX_def OP2_IDX_def
        split: sum.splits if_splits)
  have len: "length t1 \<le> 4" "length t2 \<le> 4"
    using assms g1 g2
    by (auto simp: parse_equation_def Let_def OP1_IDX_def OP2_IDX_def DIGIT_LENGTH_LIMIT_def
        split: sum.splits if_splits)
  obtain sign where g3: "getitem (split s) 1 = Inr sign"
    using assms g1 g2
    by (auto simp: parse_equation_def Let_def OP1_IDX_def OP2_IDX_def SIGN_IDX_def
        split: sum.splits if_splits)
  have sg: "sign = ''+'' \<or> sign = ''-''"
    using assms g1 g2 g3
    by (auto simp: parse_equation_def Let_def OP1_IDX_def OP2_IDX_def SIGN_IDX_def
        split: sum.splits if_splits)
  obtain op1 op2 where i1: "py_int t1 = Inr op1" and i2: "py_int t2 = Inr op2"
    and eq: "eq = \<lparr>operand1 = py_str op1, operator = sign, operand2 = py_str op2,
                   solution = calculate_solution op1 sign op2\<rparr>"
    using assms g1 g2 g3
    by (auto simp: parse_equation_def Let_def OP1_IDX_def OP2_IDX_def SIGN_IDX_def
        split: sum.splits if_splits)
  from g1 g2 g3 have "2 < length (split s)" "t1 = split s ! 0" "sign = split s ! 1"
      "t2 = split s ! 2"
    by (auto dest: getitem_Inr)
  then obtain rest where sp: "split s = t1 # sign # t2 # rest"
    by (cases "split s"; simp; rename_tac a as; case_tac as; simp;
        rename_tac b bs; case_tac bs; simp)
  show ?thesis
    using sp len sg eq py_int_Inr [OF i1] py_int_Inr [OF i2] by auto
qed

lemma str_nat_bound: "n < 10 ^ length (str_nat n)"
proof (induction n rule: str_nat.induct)
  case (1 n)
  show ?case
  proof (cases "n < 10")
    case True
    then show ?thesis by (simp add: str_nat_digit)
  next
    case False
    then have "n div 10 < 10 ^ length (str_nat (n div 10))"
      using 1 by simp
    then have "n < 10 * 10 ^ length (str_nat (n div 10))"
      by linarith
    then show ?thesis
      using False by (subst str_nat.simps) simp
  qed
qed

lemma length_str_nat_le: "n < 10 ^ k \<Longrightarrow> 0 < k \<Longrightarrow> length (str_nat n) \<le> k"
proof (induction n arbitrary: k rule: str_nat.induct)
  case (1 n)
  show ?case
  proof (cases "n < 10")
    case True
    then show ?thesis using "1.prems" by (simp add: str_nat_digit)
  next
    case False
    obtain j where k: "k = Suc j"
      using "1.prems" by (cases k) auto
    have "j \<noteq> 0"
      using False "1.prems" k by (cases j) auto
    moreover have "n div 10 < 10 ^ j"
      using "1.prems" k by (simp add: less_mult_imp_div_less mult.commute)
    ultimately have "length (str_nat (n div 10)) \<le> j"
      using "1.IH" [OF False] by simp
    then show ?thesis
      using False k by (subst str_nat.simps) simp
  qed
qed

lemma length_str_nat_pos: "0 < length (str_nat n)"
  by (subst str_nat.simps) simp

lemma isdecimal_char_of: "(d::nat) < 10 \<Longrightarrow> isdecimal_char (char_of (48 + d))"
  by (simp add: isdecimal_char_def)

lemma str_nat_decimal: "list_all isdecimal_char (str_nat n)"
proof (induction n rule: str_nat.induct)
  case (1 n)
  show ?case
  proof (cases "n < 10")
    case True
    then show ?thesis by (simp add: str_nat_digit isdecimal_char_of)
  next
    case False
    then show ?thesis
      using 1 by (subst str_nat.simps) (simp add: isdecimal_char_of)
  qed
qed

lemma newline_not_decimal: "\<not> isdecimal_char (CHR 0x0A)"
  by (simp add: isdecimal_char_def)

lemma str_nat_no_newline: "CHR 0x0A \<notin> set (str_nat n)"
  using str_nat_decimal [of n] newline_not_decimal
  by (auto simp: list_all_iff)

lemma py_str_no_newline: "CHR 0x0A \<notin> set (py_str i)"
  by (simp add: py_str_def str_nat_no_newline)

lemma length_rjust: "length (rjust s w c) = max (length s) w"
  by (simp add: rjust_def)

lemma set_rjust: "set (rjust s w c) \<subseteq> insert c (set s)"
  by (auto simp: rjust_def)

lemma ten_pow_mono: "a \<le> b \<Longrightarrow> (10::nat) ^ a \<le> 10 ^ b"
  by (simp add: power_increasing)

lemma length_sum_le:
  "length (str_nat (a + b)) \<le> max (length (str_nat a)) (length (str_nat b)) + 1"
proof -
  let ?L = "max (length (str_nat a)) (length (str_nat b))"
  have "(10::nat) ^ length (str_nat a) \<le> 10 ^ ?L"
    by (rule ten_pow_mono) simp
  then have "a < 10 ^ ?L"
    using str_nat_bound [of a] by (rule order.strict_trans2 [rotated])
  moreover have "(10::nat) ^ length (str_nat b) \<le> 10 ^ ?L"
    by (rule ten_pow_mono) simp
  then have "b < 10 ^ ?L"
    using str_nat_bound [of b] by (rule order.strict_trans2 [rotated])
  ultimately have "a + b < 10 ^ (?L + 1)"
    by simp
  then show ?thesis
    by (rule length_str_nat_le) simp
qed

lemma length_le_le: "c \<le> a \<Longrightarrow> length (str_nat c) \<le> length (str_nat a)"
proof -
  assume "c \<le> a"
  then have "c < 10 ^ length (str_nat a)"
    using str_nat_bound [of a] by simp
  then show ?thesis
    by (rule length_str_nat_le) (rule length_str_nat_pos)
qed

lemma length_solution_le:
  assumes "sign = ''+'' \<or> sign = ''-''"
  shows "length (py_str (calculate_solution (int a) sign (int b)))
           \<le> max (length (str_nat a)) (length (str_nat b)) + 1"
proof (cases "sign = ''+''")
  case True
  have "py_str (calculate_solution (int a) sign (int b)) = str_nat (a + b)"
    using True by (simp add: calculate_solution_def py_str_def nat_int_add)
  then show ?thesis
    using length_sum_le [of a b] by simp
next
  case False
  then have cs: "calculate_solution (int a) sign (int b) = int a - int b"
    by (simp add: calculate_solution_def)
  show ?thesis
  proof (cases "a < b")
    case True
    then have "nat (- (int a - int b)) = b - a" by simp
    then have "py_str (int a - int b) = CHR ''-'' # str_nat (b - a)"
      using True by (simp add: py_str_def)
    then show ?thesis
      using cs length_le_le [of "b - a" b] by simp
  next
    case False
    then have "nat (int a - int b) = a - b" by simp
    then have "py_str (int a - int b) = str_nat (a - b)"
      using False by (simp add: py_str_def)
    then show ?thesis
      using cs length_le_le [of "a - b" a] by simp
  qed
qed

lemma parse_equation_from_parse:
  assumes "parse_equation s = Inr (Parsed eq)"
  shows "from_parse eq"
proof -
  obtain t1 sign t2 where sg: "sign = ''+'' \<or> sign = ''-''"
    and eq: "eq = \<lparr>operand1 = py_str (int (digits_value t1)), operator = sign,
                  operand2 = py_str (int (digits_value t2)),
                  solution = calculate_solution (int (digits_value t1)) sign
                    (int (digits_value t2))\<rparr>"
    using parse_equation_Parsed [OF assms] by blast
  show ?thesis
    unfolding from_parse_def
    using sg eq by (intro exI [of _ "digits_value t1"] exI [of _ "digits_value t2"]
        exI [of _ sign]) (simp add: py_str_def)
qed

lemma line_entry_segment_of:
  "k \<in> {1, 2, 3, 4} \<Longrightarrow> line_entry k eq = Some (segment_of k eq)"
  by (auto simp: segment_of_def line_entry_def Let_def)

lemma length_segment_of:
  assumes "from_parse eq" and "k \<in> {1, 2, 3, 4}"
  shows "length (segment_of k eq) = column_width eq"
proof -
  obtain a b sign where sg: "sign = ''+'' \<or> sign = ''-''"
    and eq: "eq = \<lparr>operand1 = str_nat a, operator = sign, operand2 = str_nat b,
                   solution = calculate_solution (int a) sign (int b)\<rparr>"
    using assms(1) unfolding from_parse_def by blast
  have ls: "length sign = 1"
    using sg by auto
  note sol = length_solution_le [OF sg, of a b]
  consider "k = 1" | "k = 2" | "k = 3" | "k = 4"
    using assms(2) by auto
  then show ?thesis
  proof cases
    case 1
    then show ?thesis
      by (simp add: eq segment_of_def line_entry_def get_longest_operand_len_def
          column_width_def length_rjust)
  next
    case 2
    then show ?thesis
      using ls by (simp add: eq segment_of_def line_entry_def get_longest_operand_len_def
          column_width_def length_rjust)
  next
    case 3
    then show ?thesis
      by (simp add: eq segment_of_def line_entry_def get_longest_operand_len_def
          column_width_def length_rjust)
  next
    case 4
    then show ?thesis
      using sol by (simp add: eq segment_of_def line_entry_def get_longest_operand_len_def
          column_width_def length_rjust)
  qed
qed

lemma newline_segment_of:
  assumes "from_parse eq" and "k \<in> {1, 2, 3, 4}"
  shows "CHR 0x0A \<notin> set (segment_of k eq)"
proof -
  obtain a b sign where sg: "sign = ''+'' \<or> sign = ''-''"
    and eq: "eq = \<lparr>operand1 = str_nat a, operator = sign, operand2 = str_nat b,
                   solution = calculate_solution (int a) sign (int b)\<rparr>"
    using assms(1) unfolding from_parse_def by blast
  have ns: "CHR 0x0A \<notin> set sign"
    using sg by auto
  consider "k = 1" | "k = 2" | "k = 3" | "k = 4"
    using assms(2) by auto
  then show ?thesis
  proof cases
    case 1
    then show ?thesis
      using set_rjust [of "str_nat a" _ "CHR '' ''"] str_nat_no_newline [of a]
      by (auto simp: eq segment_of_def line_entry_def Let_def)
  next
    case 2
    then show ?thesis
      using set_rjust [of "str_nat b" _ "CHR '' ''"] str_nat_no_newline [of b] ns
      by (auto simp: eq segment_of_def line_entry_def Let_def)
  next
    case 3
    then show ?thesis
      using set_rjust [of "[]" _ "CHR ''-''"]
      by (auto simp: eq segment_of_def line_entry_def Let_def)
  next
    case 4
    then show ?thesis
      using set_rjust [of "py_str (calculate_solution (int a) sign (int b))" _ "CHR '' ''"]
        py_str_no_newline [of "calculate_solution (int a) sign (int b)"]
      by (auto simp: eq segment_of_def line_entry_def Let_def)
  qed
qed

section \<open>The loops\<close>

lemma join_snoc: "join sep (ys @ [y]) = concat (map (\<lambda>s. s @ sep) ys) @ y"
  by (induction sep ys rule: join.induct) auto

lemma line_loop_eq:
  assumes "k \<in> {1, 2, 3, 4}"
  shows "line_loop k eqs idxs line =
           Inr (line @ concat (map (\<lambda>j. segment_of k (eqs ! j) @
                  (if j \<noteq> length eqs - 1 then TAB else NEW_LINE)) idxs))"
  by (induction idxs arbitrary: line) (simp_all add: line_entry_segment_of [OF assms])

lemma concat_entries_join:
  assumes "eqs \<noteq> []"
  shows "concat (map (\<lambda>j. f (eqs ! j) @ (if j \<noteq> length eqs - 1 then TAB else NEW_LINE))
           [0..<length eqs]) = join TAB (map f eqs) @ NEW_LINE"
proof -
  obtain xs x where eqs: "eqs = xs @ [x]"
    using assms by (cases eqs rule: rev_cases) auto
  have "map (\<lambda>j. f (eqs ! j) @ (if j \<noteq> length eqs - 1 then TAB else NEW_LINE))
          [0..<length xs] = map (\<lambda>j. f (xs ! j) @ TAB) [0..<length xs]"
    by (rule map_cong) (simp_all add: eqs nth_append)
  also have "\<dots> = map (\<lambda>y. f y @ TAB) (map (\<lambda>j. xs ! j) [0..<length xs])"
    by (simp add: comp_def)
  also have "\<dots> = map (\<lambda>y. f y @ TAB) xs"
    by (simp only: map_nth)
  finally have front:
    "map (\<lambda>j. f (eqs ! j) @ (if j \<noteq> length eqs - 1 then TAB else NEW_LINE))
       [0..<length xs] = map (\<lambda>y. f y @ TAB) xs" .
  have "concat (map (\<lambda>j. f (eqs ! j) @ (if j \<noteq> length eqs - 1 then TAB else NEW_LINE))
          [0..<length eqs])
        = concat (map (\<lambda>j. f (eqs ! j) @ (if j \<noteq> length eqs - 1 then TAB else NEW_LINE))
            [0..<length xs]) @ f x @ NEW_LINE"
    by (simp add: eqs)
  also have "\<dots> = concat (map (\<lambda>y. f y @ TAB) xs) @ f x @ NEW_LINE"
    by (simp only: front)
  also have "\<dots> = join TAB (map f eqs) @ NEW_LINE"
    by (simp add: eqs join_snoc comp_def)
  finally show ?thesis .
qed

lemma rows_loop_eq:
  assumes "eqs \<noteq> []" and "set ks \<subseteq> {1, 2, 3, 4}"
  shows "rows_loop ks eqs acc =
           acc @ concat (map (\<lambda>k. join TAB (map (segment_of k) eqs) @ NEW_LINE) ks)"
  using assms(2)
proof (induction ks arbitrary: acc)
  case Nil
  show ?case by simp
next
  case (Cons k ks)
  then have k: "k \<in> {1, 2, 3, 4}" and ks: "set ks \<subseteq> {1, 2, 3, 4}"
    by simp_all
  have "line_loop k eqs [0..<length eqs] [] =
          Inr (join TAB (map (segment_of k) eqs) @ NEW_LINE)"
    by (simp only: line_loop_eq [OF k] concat_entries_join [OF assms(1)] append_Nil)
  then show ?case
    using Cons.IH [OF ks] by simp
qed

lemma parse_loop_all_parsed:
  "map parse_equation problems = map (\<lambda>eq. Inr (Parsed eq)) equations \<Longrightarrow>
   parse_loop problems acc = Inr (Inr (acc @ equations))"
proof (induction problems arbitrary: acc equations)
  case Nil
  then show ?case by simp
next
  case (Cons p ps)
  then obtain e es where eqs: "equations = e # es" and p: "parse_equation p = Inr (Parsed e)"
    and ps: "map parse_equation ps = map (\<lambda>eq. Inr (Parsed eq)) es"
    by (cases equations) auto
  show ?case
    using Cons.IH [OF ps, of "acc @ [e]"] p by (simp add: eqs)
qed

lemma all_from_parse:
  "map parse_equation problems = map (\<lambda>eq. Inr (Parsed eq)) equations \<Longrightarrow>
   list_all from_parse equations"
proof (induction problems arbitrary: equations)
  case Nil
  then show ?case by simp
next
  case (Cons p ps)
  then obtain e es where eqs: "equations = e # es" and p: "parse_equation p = Inr (Parsed e)"
    and ps: "map parse_equation ps = map (\<lambda>eq. Inr (Parsed eq)) es"
    by (cases equations) auto
  show ?case
    using Cons.IH [OF ps] parse_equation_from_parse [OF p] by (simp add: eqs)
qed

lemma row_segments_ok:
  assumes "list_all from_parse equations" and "k \<in> {1, 2, 3, 4}"
  shows "list_all2 (\<lambda>segment eq. length segment = column_width eq \<and>
           CHR 0x0A \<notin> set segment) (map (segment_of k) equations) equations"
  using assms(1)
  by (induction equations)
    (simp_all add: length_segment_of [OF _ assms(2)] newline_segment_of [OF _ assms(2)])

lemma segment_of_4: "segment_of 4 eq = solution_entry eq"
  by (simp add: segment_of_def line_entry_def get_longest_operand_len_def column_width_def
      solution_entry_def)

lemma segment_of_4_fun: "segment_of 4 = solution_entry"
  by (rule ext) (rule segment_of_4)

lemma valid_list_all2:
  "map parse_equation problems = map (\<lambda>eq. Inr (Parsed eq)) equations \<Longrightarrow>
   list_all2 (\<lambda>p eq. parse_equation p = Inr (Parsed eq)) problems equations"
proof (induction problems arbitrary: equations)
  case Nil
  then show ?case by simp
next
  case (Cons p ps)
  then obtain e es where "equations = e # es" "parse_equation p = Inr (Parsed e)"
    "map parse_equation ps = map (\<lambda>eq. Inr (Parsed eq)) es"
    by (cases equations) auto
  then show ?case
    using Cons.IH by simp
qed

lemma parsed_solution:
  assumes "parse_equation p = Inr (Parsed eq)"
  shows "\<exists>t1 sign t2 rest n1 n2. split p = t1 # sign # t2 # rest \<and>
           py_int t1 = Inr n1 \<and> py_int t2 = Inr n2 \<and> 0 \<le> n1 \<and> 0 \<le> n2 \<and>
           (sign = ''+'' \<or> sign = ''-'') \<and> solution eq = calculate_solution n1 sign n2"
proof -
  obtain t1 sign t2 rest where sp: "split p = t1 # sign # t2 # rest"
    and d: "list_all isdecimal_char t1" "list_all isdecimal_char t2"
    and ne: "t1 \<noteq> []" "t2 \<noteq> []"
    and sg: "sign = ''+'' \<or> sign = ''-''"
    and eq: "eq = \<lparr>operand1 = py_str (int (digits_value t1)), operator = sign,
                  operand2 = py_str (int (digits_value t2)),
                  solution = calculate_solution (int (digits_value t1)) sign
                    (int (digits_value t2))\<rparr>"
    using parse_equation_Parsed [OF assms] by blast
  have "py_int t1 = Inr (int (digits_value t1))" "py_int t2 = Inr (int (digits_value t2))"
    using d ne by (simp_all add: py_int_def)
  then show ?thesis
    using sp sg eq by (intro exI [of _ t1] exI [of _ sign] exI [of _ t2] exI [of _ rest]
        exI [of _ "int (digits_value t1)"] exI [of _ "int (digits_value t2)"]) simp
qed

lemma arranger_rows:
  assumes "problems \<noteq> []" and "length problems \<le> 5"
    and "map parse_equation problems = map (\<lambda>eq. Inr (Parsed eq)) equations"
    and "set ks \<subseteq> {1, 2, 3, 4}"
  shows "rows_loop ks equations [] =
           concat (map (\<lambda>k. join TAB (map (segment_of k) equations) @ NEW_LINE) ks)"
proof -
  have ne: "equations \<noteq> []"
    using assms(1,3) by (cases equations) auto
  show ?thesis
    by (simp only: rows_loop_eq [OF ne assms(4)] append_Nil)
qed

lemma strip_leading_zeros_id: "take 1 t \<noteq> ''0'' \<Longrightarrow> t \<noteq> [] \<Longrightarrow> strip_leading_zeros t = t"
  by (cases t) (auto simp: strip_leading_zeros_def)

section \<open>Concrete runs\<close>

text \<open>
  Claim C8. \<open>arithmetic_arranger(["3801 - 2", "123 + 49"])\<close>, solutions off, returns
  exactly the three rows of the example: operand1 right-justified, the operator, one
  space and operand2 right-justified, a dash line per equation, four spaces between
  the equations and a newline after each row.
\<close>

theorem arranger_example_3801:
  "arithmetic_arranger [''3801 - 2'', ''123 + 49''] False =
     Inr ''  3801      123\<newline>-    2    +  49\<newline>------    -----\<newline>''"
  by code_simp

text \<open>
  Claim C10. For the empty list and either flag value the result is the empty string:
  no error message and no newline, since the inner loop never runs.
\<close>

theorem arranger_empty: "arithmetic_arranger [] show_solutions = Inr ''''"
  by (cases show_solutions)
    (simp_all add: arithmetic_arranger_def format_equations_string_def
      PROBLEM_LIMIT_def upt_rec)

text \<open>
  Claim C1 (token count). \<open>parse_equation\<close> has no check of the number of tokens and
  never returns the code \<open>ERR_NOTM\<close>. Two tokens: \<open>tokens[2]\<close> raises IndexError.
  Four tokens: the fourth is ignored and the block for \<open>1 + 2\<close> is returned.
\<close>

theorem token_count_unchecked:
  "arithmetic_arranger [''1 +''] False = Inl IndexError \<and>
   arithmetic_arranger [''1 + 2 3''] False = Inr ''  1\<newline>+ 2\<newline>---\<newline>''"
  by code_simp

text \<open>
  Claim C2 (non-digit operands). The test is \<open>isnumeric\<close>, which the fraction one half
  (code point 189) and superscript two (178) pass; \<open>int\<close> then raises ValueError, so
  the result is an exception and not the message on digits.
\<close>

theorem numeric_non_digit_raises:
  "arithmetic_arranger [[CHR 0xBD] @ '' + 1''] False = Inl ValueError \<and>
   arithmetic_arranger [[CHR 0xB2] @ '' + 1''] False = Inl ValueError"
  by code_simp

text \<open>
  Claim C4 (precedence of the checks). With the operand one half, which is not made of
  decimal digits, and the operator \<open>/\<close>, the result is the message on the operator:
  the check on digits did not reject the operand first.
\<close>

theorem operator_error_with_non_digit_operand:
  "arithmetic_arranger [[CHR 0xBD] @ '' / 1''] False = Inr ERR_INVALID_OPERATOR \<and>
   \<not> list_all isdecimal_char [CHR 0xBD]"
  by code_simp



section \<open>Properties for all inputs\<close>

text \<open>
  Claim C3. A list of more than 5 elements yields \<open>Error: Too many problems.\<close>
  whatever the elements are: the limit is tested before any expression is parsed, so
  elements that would raise or report an error of their own make no difference.
\<close>

theorem too_many_problems:
  "length problems > 5 \<Longrightarrow>
   arithmetic_arranger problems show_solutions = Inr ''Error: Too many problems.''"
  by (simp add: arithmetic_arranger_def PROBLEM_LIMIT_def ERR_TOO_MANY_PROBLEMS_def)

theorem too_many_problems_witness:
  "length [''x'', ''1 +'', '''', ''a b c d'', ''12345 + 1'', ''1 * 2''] > 5 \<and>
   parse_equation ''1 +'' = Inl IndexError \<and>
   arithmetic_arranger [''x'', ''1 +'', '''', ''a b c d'', ''12345 + 1'', ''1 * 2''] True =
     Inr ''Error: Too many problems.''"
proof -
  have n: "length [''x'', ''1 +'', '''', ''a b c d'', ''12345 + 1'', ''1 * 2''] > 5"
    by simp
  have p: "parse_equation ''1 +'' = Inl IndexError"
    by code_simp
  show ?thesis
    using n p too_many_problems [OF n, of True] by simp
qed

text \<open>
  Claim C9. For non-negative operands the solution is \<open>op1 + op2\<close> for \<open>+\<close> and
  \<open>op1 - op2\<close> for \<open>-\<close>. For 1 to 5 problems that all parse, the solution of every
  Equation is \<open>calculate_solution\<close> of the integers its two operand tokens denote, and
  the block returned with solutions on is the block returned with solutions off
  followed by the solution row: per equation \<open>str(solution)\<close>, right-justified to the
  column width, the entries joined by four spaces and ended by a newline. For a negative
  solution \<open>str(solution)\<close> is a minus sign and the digits of the absolute value.
\<close>

theorem solution_computed_and_rendered:
  assumes "0 \<le> op1" and "0 \<le> op2"
    and "problems \<noteq> []" and "length problems \<le> 5"
    and "map parse_equation problems = map (\<lambda>eq. Inr (Parsed eq)) equations"
  shows "calculate_solution op1 ''+'' op2 = op1 + op2 \<and>
         calculate_solution op1 ''-'' op2 = op1 - op2 \<and>
         list_all2 (\<lambda>p eq. \<exists>t1 sign t2 rest n1 n2. split p = t1 # sign # t2 # rest \<and>
             py_int t1 = Inr n1 \<and> py_int t2 = Inr n2 \<and> 0 \<le> n1 \<and> 0 \<le> n2 \<and>
             (sign = ''+'' \<or> sign = ''-'') \<and> solution eq = calculate_solution n1 sign n2)
           problems equations \<and>
         (\<exists>block. arithmetic_arranger problems False = Inr block \<and>
            arithmetic_arranger problems True =
              Inr (block @ join ''    '' (map solution_entry equations) @ ''\<newline>'')) \<and>
         list_all (\<lambda>eq. solution_entry eq =
             rjust (py_str (solution eq))
               (max (length (operand1 eq)) (length (operand2 eq)) + 2) CHR '' '' \<and>
             (solution eq < 0 \<longrightarrow>
                py_str (solution eq) = CHR ''-'' # str_nat (nat (- solution eq))))
           equations"
proof -
  have ev: "calculate_solution op1 ''+'' op2 = op1 + op2"
      "calculate_solution op1 ''-'' op2 = op1 - op2"
    by (simp_all add: calculate_solution_def)
  have sols: "list_all2 (\<lambda>p eq. \<exists>t1 sign t2 rest n1 n2. split p = t1 # sign # t2 # rest \<and>
             py_int t1 = Inr n1 \<and> py_int t2 = Inr n2 \<and> 0 \<le> n1 \<and> 0 \<le> n2 \<and>
             (sign = ''+'' \<or> sign = ''-'') \<and> solution eq = calculate_solution n1 sign n2)
           problems equations"
    by (rule list_all2_mono [OF valid_list_all2 [OF assms(5)]]) (rule parsed_solution)
  have run: "arithmetic_arranger problems b =
      Inr (rows_loop (if b then [1..<5] else [1..<4]) equations [])" for b
    using assms(4) parse_loop_all_parsed [OF assms(5), of "[]"]
    by (simp add: arithmetic_arranger_def PROBLEM_LIMIT_def format_equations_string_def)
  let ?row = "\<lambda>k. join TAB (map (segment_of k) equations) @ NEW_LINE"
  let ?block = "concat (map ?row [1..<4])"
  have k3: "set [1..<4] \<subseteq> {1, 2, 3, 4::nat}" and k4: "set [1..<5] \<subseteq> {1, 2, 3, 4::nat}"
    by auto
  have off: "arithmetic_arranger problems False = Inr ?block"
    using run [of False] arranger_rows [OF assms(3-5) k3] by simp
  have "[1..<5] = [1..<4] @ [4::nat]"
    by (simp add: upt_rec)
  then have "concat (map ?row [1..<5]) = ?block @ ?row 4"
    by simp
  then have on: "arithmetic_arranger problems True =
      Inr (?block @ join ''    '' (map solution_entry equations) @ ''\<newline>'')"
    using run [of True] arranger_rows [OF assms(3-5) k4]
    by (simp add: segment_of_4_fun TAB_def NEW_LINE_def)
  have ent: "list_all (\<lambda>eq. solution_entry eq =
             rjust (py_str (solution eq))
               (max (length (operand1 eq)) (length (operand2 eq)) + 2) CHR '' '' \<and>
             (solution eq < 0 \<longrightarrow>
                py_str (solution eq) = CHR ''-'' # str_nat (nat (- solution eq))))
           equations"
    by (simp add: list_all_iff solution_entry_def column_width_def py_str_def)
  from ev sols off on ent show ?thesis
    by blast
qed

theorem solution_computed_and_rendered_witness:
  "(0::int) \<le> 1 \<and> (0::int) \<le> 9380 \<and>
   [''1 - 9380'', ''3 + 855''] \<noteq> [] \<and> length [''1 - 9380'', ''3 + 855''] \<le> 5 \<and>
   map parse_equation [''1 - 9380'', ''3 + 855''] =
     map (\<lambda>eq. Inr (Parsed eq))
       [\<lparr>operand1 = ''1'', operator = ''-'', operand2 = ''9380'', solution = - 9379\<rparr>,
        \<lparr>operand1 = ''3'', operator = ''+'', operand2 = ''855'', solution = 858\<rparr>] \<and>
   calculate_solution 1 ''+'' 9380 = 9381 \<and>
   calculate_solution 1 ''-'' 9380 = - 9379 \<and>
   (\<exists>block. arithmetic_arranger [''1 - 9380'', ''3 + 855''] False = Inr block \<and>
      arithmetic_arranger [''1 - 9380'', ''3 + 855''] True =
        Inr (block @ '' -9379      858\<newline>''))"
proof -
  let ?ps = "[''1 - 9380'', ''3 + 855'']"
  let ?e1 = "\<lparr>operand1 = ''1'', operator = ''-'', operand2 = ''9380'', solution = - 9379\<rparr>"
  let ?e2 = "\<lparr>operand1 = ''3'', operator = ''+'', operand2 = ''855'', solution = 858\<rparr>"
  have h1: "(0::int) \<le> 1" and h2: "(0::int) \<le> 9380"
    by simp_all
  have ne: "?ps \<noteq> []" and le: "length ?ps \<le> 5"
    by simp_all
  have sp: "split ''1 - 9380'' = [''1'', ''-'', ''9380'']"
      "split ''3 + 855'' = [''3'', ''+'', ''855'']"
    by code_simp+
  have pe: "parse_equation ''1 - 9380'' = Inr (Parsed ?e1)"
      "parse_equation ''3 + 855'' = Inr (Parsed ?e2)"
    by (simp_all add: parse_equation_def sp getitem_def OP1_IDX_def OP2_IDX_def SIGN_IDX_def
        DIGIT_LENGTH_LIMIT_def isnumeric_def isnumeric_char_def isdecimal_char_def py_int_def
        digits_value_def digit_value_def py_str_def str_nat.simps digit_chars
        calculate_solution_def)
  have p: "map parse_equation ?ps = map (\<lambda>eq. Inr (Parsed eq)) [?e1, ?e2]"
    by (simp add: pe)
  note t = solution_computed_and_rendered [OF h1 h2 ne le p]
  have plus: "calculate_solution 1 ''+'' 9380 = 9381"
    and minus: "calculate_solution 1 ''-'' 9380 = - 9379"
    using t by simp_all
  have e1: "solution_entry ?e1 = '' -9379''"
    by (simp add: solution_entry_def column_width_def rjust_def py_str_def str_nat.simps
        digit_chars)
  have e2: "solution_entry ?e2 = ''  858''"
    by (simp add: solution_entry_def column_width_def rjust_def py_str_def str_nat.simps
        digit_chars)
  have row: "join ''    '' (map solution_entry [?e1, ?e2]) @ ''\<newline>'' =
      '' -9379      858\<newline>''"
    by (simp add: e1 e2)
  have "\<exists>block. arithmetic_arranger ?ps False = Inr block \<and>
      arithmetic_arranger ?ps True =
        Inr (block @ join ''    '' (map solution_entry [?e1, ?e2]) @ ''\<newline>'')"
    using t by blast
  then have blk: "\<exists>block. arithmetic_arranger ?ps False = Inr block \<and>
      arithmetic_arranger ?ps True = Inr (block @ '' -9379      858\<newline>'')"
    by (simp only: row)
  from h1 h2 ne le p plus minus blk show ?thesis
    by (intro conjI)
qed

text \<open>
  Claim C6, as stated, fails: the Equation stores \<open>str(int(token))\<close>, so the token
  \<open>007\<close> is stored and rendered as \<open>7\<close>.
\<close>

theorem operand_007_counterexample:
  "split ''007 + 1'' = [''007'', ''+'', ''1''] \<and>
   parse_equation ''007 + 1'' =
     Inr (Parsed \<lparr>operand1 = ''7'', operator = ''+'', operand2 = ''1'', solution = 8\<rparr>) \<and>
   arithmetic_arranger [''007 + 1''] False = Inr ''  7\<newline>+ 1\<newline>---\<newline>'' \<and>
   ''7'' \<noteq> ''007''"
  by code_simp

text \<open>
  Claim C6, amended. For every expression that parses to an Equation, operand1 and
  operand2 are \<open>str(int(token))\<close> of the first and third token, not the tokens as given.
  For a token made of the ASCII digits \<open>0\<close> to \<open>9\<close> that is the token without its
  leading zeros (a token of zeros only becomes \<open>0\<close>), and such a token that does not
  start with \<open>0\<close> is stored character for character.
\<close>

theorem operands_stored_as_str_of_int:
  assumes "split s = t1 # sign # t2 # rest" and "parse_equation s = Inr (Parsed eq)"
  shows "(case py_int t1 of Inl e \<Rightarrow> False | Inr n \<Rightarrow> operand1 eq = py_str n) \<and>
         (case py_int t2 of Inl e \<Rightarrow> False | Inr n \<Rightarrow> operand2 eq = py_str n) \<and>
         (list_all isdecimal_char t1 \<longrightarrow>
            operand1 eq = strip_leading_zeros t1 \<and>
            (take 1 t1 \<noteq> ''0'' \<longrightarrow> operand1 eq = t1)) \<and>
         (list_all isdecimal_char t2 \<longrightarrow>
            operand2 eq = strip_leading_zeros t2 \<and>
            (take 1 t2 \<noteq> ''0'' \<longrightarrow> operand2 eq = t2))"
proof -
  obtain u1 sg u2 r where sp: "split s = u1 # sg # u2 # r"
    and d: "list_all isdecimal_char u1" "list_all isdecimal_char u2"
    and ne: "u1 \<noteq> []" "u2 \<noteq> []"
    and eq: "eq = \<lparr>operand1 = py_str (int (digits_value u1)), operator = sg,
                  operand2 = py_str (int (digits_value u2)),
                  solution = calculate_solution (int (digits_value u1)) sg
                    (int (digits_value u2))\<rparr>"
    using parse_equation_Parsed [OF assms(2)] by blast
  have u: "u1 = t1" "u2 = t2"
    using sp assms(1) by simp_all
  have i: "py_int t1 = Inr (int (digits_value t1))" "py_int t2 = Inr (int (digits_value t2))"
    using d ne u by (simp_all add: py_int_def)
  have o: "operand1 eq = py_str (int (digits_value t1))"
      "operand2 eq = py_str (int (digits_value t2))"
    using eq u by simp_all
  have z: "operand1 eq = strip_leading_zeros t1" "operand2 eq = strip_leading_zeros t2"
    using o d u by (simp_all add: py_str_digits_value)
  have k: "take 1 t1 \<noteq> ''0'' \<longrightarrow> operand1 eq = t1" "take 1 t2 \<noteq> ''0'' \<longrightarrow> operand2 eq = t2"
    using z ne u by (simp_all add: strip_leading_zeros_id)
  show ?thesis
    using i o z k by simp
qed

theorem operands_stored_as_str_of_int_witness:
  "split ''007 + 12'' = [''007'', ''+'', ''12''] \<and>
   parse_equation ''007 + 12'' =
     Inr (Parsed \<lparr>operand1 = ''7'', operator = ''+'', operand2 = ''12'', solution = 19\<rparr>) \<and>
   list_all isdecimal_char ''007'' \<and> list_all isdecimal_char ''12'' \<and>
   py_int ''007'' = Inr 7 \<and> py_str 7 = ''7'' \<and>
   strip_leading_zeros ''007'' = ''7'' \<and> take 1 ''12'' \<noteq> ''0''"
proof -
  have sp: "split ''007 + 12'' = ''007'' # ''+'' # ''12'' # []"
    by code_simp
  have pe: "parse_equation ''007 + 12'' =
     Inr (Parsed \<lparr>operand1 = ''7'', operator = ''+'', operand2 = ''12'', solution = 19\<rparr>)"
    by code_simp
  have d: "list_all isdecimal_char ''007''" "list_all isdecimal_char ''12''"
    by (simp_all add: isdecimal_char_def)
  have i: "py_int ''007'' = Inr 7"
    using d by (simp add: py_int_def digits_value_def digit_value_def)
  note t = operands_stored_as_str_of_int [OF sp pe]
  have s: "py_str 7 = ''7''"
    using t i by simp
  have z: "strip_leading_zeros ''007'' = ''7''"
    using t d by simp
  from sp pe d i s z show ?thesis
    by simp
qed

text \<open>
  Claim C7. For 1 to 5 problems that all parse to Equations, and either flag value, the
  result is a sequence of rows, 4 with solutions and 3 without; each row is one segment
  per equation, joined by four spaces and ended by a newline; every segment is as wide
  as the column of its equation, \<open>max(len(operand1), len(operand2)) + 2\<close>, and holds
  no newline itself.
\<close>

theorem output_block_structure:
  assumes "problems \<noteq> []" and "length problems \<le> 5"
    and "map parse_equation problems = map (\<lambda>eq. Inr (Parsed eq)) equations"
  shows "\<exists>rows. arithmetic_arranger problems show_solutions =
           Inr (concat (map (\<lambda>segments. join ''    '' segments @ ''\<newline>'') rows)) \<and>
         length rows = (if show_solutions then 4 else 3) \<and>
         list_all (\<lambda>segments.
           list_all2 (\<lambda>segment eq. length segment = column_width eq \<and>
             CHR ''\<newline>'' \<notin> set segment) segments equations) rows"
proof -
  let ?ks = "if show_solutions then [1..<5] else [1..<4::nat]"
  let ?rows = "map (\<lambda>k. map (segment_of k) equations) ?ks"
  have ne: "equations \<noteq> []"
    using assms(1,3) by (cases equations) auto
  have ks: "set ?ks \<subseteq> {1, 2, 3, 4}"
    by auto
  have wf: "list_all from_parse equations"
    by (rule all_from_parse [OF assms(3)])
  have "arithmetic_arranger problems show_solutions =
          Inr (rows_loop ?ks equations [])"
    using assms(2) parse_loop_all_parsed [OF assms(3), of "[]"]
    by (simp add: arithmetic_arranger_def PROBLEM_LIMIT_def format_equations_string_def)
  also have "rows_loop ?ks equations [] =
      concat (map (\<lambda>k. join TAB (map (segment_of k) equations) @ NEW_LINE) ?ks)"
    by (simp only: rows_loop_eq [OF ne ks] append_Nil)
  also have "\<dots> = concat (map (\<lambda>segments. join ''    '' segments @ ''\<newline>'') ?rows)"
    by (simp add: comp_def TAB_def NEW_LINE_def)
  finally have res: "arithmetic_arranger problems show_solutions =
      Inr (concat (map (\<lambda>segments. join ''    '' segments @ ''\<newline>'') ?rows))" .
  have len: "length ?rows = (if show_solutions then 4 else 3)"
    by simp
  have "\<forall>k \<in> set ?ks. list_all2 (\<lambda>segment eq. length segment = column_width eq \<and>
             CHR ''\<newline>'' \<notin> set segment) (map (segment_of k) equations) equations"
    using row_segments_ok [OF wf] ks by auto
  then have segs: "list_all (\<lambda>segments.
           list_all2 (\<lambda>segment eq. length segment = column_width eq \<and>
             CHR ''\<newline>'' \<notin> set segment) segments equations) ?rows"
    by (simp add: list_all_iff)
  from res len segs show ?thesis
    by (intro exI [of _ ?rows] conjI)
qed

theorem output_block_structure_witness:
  "[''3 + 855'', ''988 + 40''] \<noteq> [] \<and> length [''3 + 855'', ''988 + 40''] \<le> 5 \<and>
   map parse_equation [''3 + 855'', ''988 + 40''] =
     map (\<lambda>eq. Inr (Parsed eq))
       [\<lparr>operand1 = ''3'', operator = ''+'', operand2 = ''855'', solution = 858\<rparr>,
        \<lparr>operand1 = ''988'', operator = ''+'', operand2 = ''40'', solution = 1028\<rparr>] \<and>
   (\<exists>rows. arithmetic_arranger [''3 + 855'', ''988 + 40''] True =
           Inr (concat (map (\<lambda>segments. join ''    '' segments @ ''\<newline>'') rows)) \<and>
         length rows = 4 \<and>
         list_all (\<lambda>segments.
           list_all2 (\<lambda>segment eq. length segment = column_width eq \<and>
             CHR ''\<newline>'' \<notin> set segment) segments
            [\<lparr>operand1 = ''3'', operator = ''+'', operand2 = ''855'', solution = 858\<rparr>,
             \<lparr>operand1 = ''988'', operator = ''+'', operand2 = ''40'', solution = 1028\<rparr>]) rows)"
proof -
  have ne: "[''3 + 855'', ''988 + 40''] \<noteq> []" and le: "length [''3 + 855'', ''988 + 40''] \<le> 5"
    by simp_all
  have p: "map parse_equation [''3 + 855'', ''988 + 40''] =
     map (\<lambda>eq. Inr (Parsed eq))
       [\<lparr>operand1 = ''3'', operator = ''+'', operand2 = ''855'', solution = 858\<rparr>,
        \<lparr>operand1 = ''988'', operator = ''+'', operand2 = ''40'', solution = 1028\<rparr>]"
    by code_simp
  show ?thesis
    using ne le p output_block_structure [OF ne le p, of True] by simp
qed

section \<open>The checks as the source makes them\<close>

text \<open>
  For an expression of at least three tokens, \<open>parse_equation\<close> tests \<open>isnumeric\<close> on
  both operands first, their lengths second and the operator last: each return code is
  the one of the first test that fails.
\<close>

theorem checks_in_source_order:
  assumes "split s = t1 # sign # t2 # rest"
  shows "(\<not> isnumeric t1 \<or> \<not> isnumeric t2 \<longrightarrow> parse_equation s = Inr (Code ERR_NDP)) \<and>
         (isnumeric t1 \<and> isnumeric t2 \<and> (4 < length t1 \<or> 4 < length t2) \<longrightarrow>
            parse_equation s = Inr (Code ERR_NTL)) \<and>
         (isnumeric t1 \<and> isnumeric t2 \<and> length t1 \<le> 4 \<and> length t2 \<le> 4 \<and>
            sign \<noteq> ''+'' \<and> sign \<noteq> ''-'' \<longrightarrow> parse_equation s = Inr (Code ERR_IO))"
  using assms
  by (auto simp: parse_equation_def Let_def getitem_def OP1_IDX_def OP2_IDX_def SIGN_IDX_def
      DIGIT_LENGTH_LIMIT_def)

theorem checks_in_source_order_witness:
  "split ''3 / 85555'' = [''3'', ''/'', ''85555''] \<and> isnumeric ''3'' \<and> isnumeric ''85555'' \<and>
   4 < length ''85555'' \<and> parse_equation ''3 / 85555'' = Inr (Code ERR_NTL)"
proof -
  have sp: "split ''3 / 85555'' = ''3'' # ''/'' # ''85555'' # []"
    by code_simp
  have n: "isnumeric ''3''" "isnumeric ''85555''"
    by code_simp+
  show ?thesis
    using checks_in_source_order [OF sp] sp n by simp
qed

text \<open>
  \<open>parse_equation\<close> never returns the code \<open>ERR_NOTM\<close>, whatever the expression is.
\<close>

theorem token_mismatch_code_never_returned: "parse_equation s \<noteq> Inr (Code ERR_NOTM)"
  by (simp add: parse_equation_def Let_def ERR_NOTM_def ERR_NDP_def ERR_NTL_def ERR_IO_def
      split: sum.split)

end
